theory Spec2Isabelle
  imports Main
begin

unbundle bit_operations_syntax

section \<open>JavaScript numbers, 32-bit operators and arrays\<close>

text \<open>
  The indices, qubit numbers and steps of the program are JavaScript numbers holding
  integers; they are modelled as \<open>int\<close>. The bitwise operators of JavaScript first
  convert their operands to 32-bit two's complement (\<open>ToInt32\<close>), and the shift operators
  use the shift count modulo 32.
\<close>

definition ToInt32 :: "int \<Rightarrow> int" where
  "ToInt32 x = signed_take_bit 31 x"

definition shiftCount :: "int \<Rightarrow> nat" where
  "shiftCount k = nat (k mod 32)"

text \<open>\<open>a >> k\<close>, sign propagating.\<close>
definition js_shr :: "int \<Rightarrow> int \<Rightarrow> int" where
  "js_shr a k = drop_bit (shiftCount k) (ToInt32 a)"

text \<open>\<open>a << k\<close>.\<close>
definition js_shl :: "int \<Rightarrow> int \<Rightarrow> int" where
  "js_shl a k = ToInt32 (push_bit (shiftCount k) (ToInt32 a))"

text \<open>\<open>a & b\<close>, \<open>a | b\<close>, \<open>a ^ b\<close> and \<open>~a\<close>.\<close>
definition js_and :: "int \<Rightarrow> int \<Rightarrow> int" where
  "js_and a b = ToInt32 a AND ToInt32 b"

definition js_or :: "int \<Rightarrow> int \<Rightarrow> int" where
  "js_or a b = ToInt32 a OR ToInt32 b"

definition js_xor :: "int \<Rightarrow> int \<Rightarrow> int" where
  "js_xor a b = ToInt32 a XOR ToInt32 b"

definition js_not :: "int \<Rightarrow> int" where
  "js_not a = NOT (ToInt32 a)"

text \<open>
  A JavaScript array is a list of slots; a slot holds a value or is \<open>undefined\<close>
  (\<open>None\<close>: a hole, or an element that was assigned \<open>undefined\<close>). Reading outside the
  array gives \<open>undefined\<close>. Writing at an index at or beyond the length extends the array,
  leaving holes; writing at a negative index creates a property that is not an element
  (such a property is never read back by the code below, which only reads at the index it
  is about to write), so the slots stay as they are.
\<close>

type_synonym 'a array = "'a option list"

definition arr_get :: "'a array \<Rightarrow> int \<Rightarrow> 'a option" where
  "arr_get xs i = (if 0 \<le> i \<and> i < int (length xs) then xs ! nat i else None)"

definition arr_set :: "'a array \<Rightarrow> int \<Rightarrow> 'a option \<Rightarrow> 'a array" where
  "arr_set xs i v =
     (if i < 0 then xs
      else if i < int (length xs) then xs[nat i := v]
      else xs @ replicate (nat i - length xs) None @ [v])"

datatype error = RangeError | TypeError | InvalidQubitIndex int

section \<open>Complex numbers (class Complex)\<close>

text \<open>
  The components are JavaScript numbers (IEEE doubles). The definitions are polymorphic
  in the component type; every result below that computes with components only meets the
  values \<open>-1\<close>, \<open>0\<close> and \<open>1\<close>, on which the arithmetic of doubles is exact.
\<close>

datatype 'a Complex = Complex (real: 'a) (imaginary: 'a)

definition add :: "'a::comm_ring_1 Complex \<Rightarrow> 'a Complex \<Rightarrow> 'a Complex" where
  "add this other = Complex (real this + real other) (imaginary this + imaginary other)"

definition subtract :: "'a::comm_ring_1 Complex \<Rightarrow> 'a Complex \<Rightarrow> 'a Complex" where
  "subtract this other = Complex (real this - real other) (imaginary this - imaginary other)"

definition multiply :: "'a::comm_ring_1 Complex \<Rightarrow> 'a Complex \<Rightarrow> 'a Complex" where
  "multiply this other =
     (let re = real this * real other - imaginary this * imaginary other;
          im = real this * imaginary other + imaginary this * real other
      in Complex re im)"

definition conjugate :: "'a::comm_ring_1 Complex \<Rightarrow> 'a Complex" where
  "conjugate this = Complex (real this) (- imaginary this)"

section \<open>class QuantumState\<close>

record 'a QuantumState =
  amplitudes :: "'a array"
  numQubits :: int

text \<open>
  The constructor. With an initial state it copies the given array, whatever its length;
  without one it allocates \<open>2 ^ numQubits\<close> slots, which raises \<open>RangeError\<close> when that
  number is not a valid array length (a non-integer, or more than \<open>2 ^ 32 - 1\<close>).
\<close>

definition new_QuantumState ::
  "int \<Rightarrow> 'a::comm_ring_1 Complex array option \<Rightarrow> error + 'a Complex QuantumState" where
  "new_QuantumState n initialState =
     (case initialState of
        Some init \<Rightarrow> Inr \<lparr>amplitudes = init, numQubits = n\<rparr>
      | None \<Rightarrow>
          if 0 \<le> n \<and> n < 32
          then Inr \<lparr>amplitudes =
                      map (\<lambda>i. Some (Complex (if i = 0 then 1 else 0) 0)) [0..<2 ^ nat n],
                    numQubits = n\<rparr>
          else Inl RangeError)"

definition getAmplitudes :: "'a QuantumState \<Rightarrow> 'a array" where
  "getAmplitudes this = amplitudes this"

definition getNumQubits :: "'a QuantumState \<Rightarrow> int" where
  "getNumQubits this = numQubits this"

subsection \<open>applyCNOT\<close>

text \<open>One iteration of the loop over \<open>state\<close>, on the array \<open>newAmplitudes\<close>.\<close>

definition cnot_body :: "int \<Rightarrow> int \<Rightarrow> int \<Rightarrow> 'a array \<Rightarrow> nat \<Rightarrow> 'a array" where
  "cnot_body n controlQubit targetQubit newAmplitudes state =
     (let controlBit = js_and (js_shr (int state) (n - 1 - controlQubit)) 1;
          targetBit = js_and (js_shr (int state) (n - 1 - targetQubit)) 1
      in if controlBit = 1 then
           let newTargetBit = 1 - targetBit;
               newState = js_xor (int state) (js_shl 1 (n - 1 - targetQubit));
               temp = arr_get newAmplitudes (int state);
               newAmplitudes1 = arr_set newAmplitudes (int state) (arr_get newAmplitudes newState)
           in arr_set newAmplitudes1 newState temp
         else newAmplitudes)"

definition applyCNOT_array :: "int \<Rightarrow> int \<Rightarrow> int \<Rightarrow> 'a array \<Rightarrow> 'a array" where
  "applyCNOT_array n controlQubit targetQubit amps =
     foldl (cnot_body n controlQubit targetQubit) amps [0..<length amps]"

definition applyCNOT ::
  "'a::comm_ring_1 Complex QuantumState \<Rightarrow> int \<Rightarrow> int \<Rightarrow> error + 'a Complex QuantumState" where
  "applyCNOT this controlQubit targetQubit =
     new_QuantumState (numQubits this)
       (Some (applyCNOT_array (numQubits this) controlQubit targetQubit (amplitudes this)))"

subsection \<open>applyGate\<close>

text \<open>
  A gate is a \<open>Complex[][]\<close>. Reading a row or an element that is not there gives
  \<open>undefined\<close>, and calling a method on \<open>undefined\<close>, or reading a field of it, raises
  \<open>TypeError\<close>.
\<close>

type_synonym 'a gate = "'a Complex list list"

definition list_get :: "'b list \<Rightarrow> int \<Rightarrow> 'b option" where
  "list_get xs i = (if 0 \<le> i \<and> i < int (length xs) then Some (xs ! nat i) else None)"

text \<open>A loop whose body may raise: the first error ends it.\<close>

fun foldE :: "('s \<Rightarrow> 'x \<Rightarrow> error + 's) \<Rightarrow> 'x list \<Rightarrow> 's \<Rightarrow> error + 's" where
  "foldE f [] s = Inr s"
| "foldE f (x # xs) s = (case f s x of Inl e \<Rightarrow> Inl e | Inr s' \<Rightarrow> foldE f xs s')"

text \<open>The body of the inner loop over \<open>newQubitBit\<close>, for a fixed \<open>state\<close>.\<close>

definition applyGate_inner ::
  "'a::comm_ring_1 gate \<Rightarrow> int \<Rightarrow> int \<Rightarrow> 'a Complex array \<Rightarrow> nat \<Rightarrow>
   'a Complex array \<Rightarrow> int \<Rightarrow> error + 'a Complex array" where
  "applyGate_inner gate n qubitIndex amps state newAmplitudes newQubitBit =
     (let qubitBit = js_and (js_shr (int state) (n - 1 - qubitIndex)) 1;
          otherBits = js_and (int state) (js_not (js_shl 1 (n - 1 - qubitIndex)));
          newState = js_or otherBits (js_shl newQubitBit (n - 1 - qubitIndex))
      in case list_get gate newQubitBit of
           None \<Rightarrow> Inl TypeError
         | Some row \<Rightarrow>
             (case (list_get row qubitBit, arr_get newAmplitudes newState,
                    arr_get amps (int state)) of
                (Some gateElement, Some cur, Some a) \<Rightarrow>
                  Inr (arr_set newAmplitudes newState (Some (add cur (multiply a gateElement))))
              | _ \<Rightarrow> Inl TypeError))"

text \<open>The body of the outer loop over \<open>state\<close>.\<close>

definition applyGate_body ::
  "'a::comm_ring_1 gate \<Rightarrow> int \<Rightarrow> int \<Rightarrow> 'a Complex array \<Rightarrow>
   'a Complex array \<Rightarrow> nat \<Rightarrow> error + 'a Complex array" where
  "applyGate_body gate n qubitIndex amps newAmplitudes state =
     foldE (applyGate_inner gate n qubitIndex amps state) [0, 1] newAmplitudes"

definition applyGate ::
  "'a::comm_ring_1 gate \<Rightarrow> int \<Rightarrow> 'a Complex QuantumState \<Rightarrow> error + 'a Complex QuantumState" where
  "applyGate gate qubitIndex this =
     (case foldE (applyGate_body gate (numQubits this) qubitIndex (amplitudes this))
             [0..<length (amplitudes this)]
             (replicate (length (amplitudes this)) (Some (Complex 0 0))) of
        Inl e \<Rightarrow> Inl e
      | Inr newAmplitudes \<Rightarrow> new_QuantumState (numQubits this) (Some newAmplitudes))"

subsection \<open>Density matrices and the Bloch vector\<close>

text \<open>
  \<open>getDensityMatrix\<close>: \<open>rho[i][j] = amplitudes[i].multiply(amplitudes[j].conjugate())\<close>
  for all \<open>i\<close> and \<open>j\<close> below the length. The first row already reads every slot, so
  one undefined slot raises \<open>TypeError\<close>.
\<close>

definition getDensityMatrix :: "'a::comm_ring_1 Complex QuantumState \<Rightarrow> error + 'a Complex list list" where
  "getDensityMatrix this =
     (case those (amplitudes this) of
        None \<Rightarrow> Inl TypeError
      | Some as \<Rightarrow> Inr (map (\<lambda>ai. map (\<lambda>aj. multiply ai (conjugate aj)) as) as))"

text \<open>
  The body of the double loop of \<open>getReducedDensityMatrix\<close>;
  \<open>iBit\<close> and \<open>jBit\<close> are 0 or 1, so the accesses to \<open>reducedRho\<close> are in range.
\<close>

definition reduced_body ::
  "int \<Rightarrow> int \<Rightarrow> 'a::comm_ring_1 Complex list list \<Rightarrow> nat \<Rightarrow> nat \<Rightarrow>
   'a Complex list list \<Rightarrow> 'a Complex list list" where
  "reduced_body n qubitIndex rho i j reducedRho =
     (let iBit = js_and (js_shr (int i) (n - 1 - qubitIndex)) 1;
          jBit = js_and (js_shr (int j) (n - 1 - qubitIndex)) 1;
          iOther = js_and (int i) (js_not (js_shl 1 (n - 1 - qubitIndex)));
          jOther = js_and (int j) (js_not (js_shl 1 (n - 1 - qubitIndex)))
      in if iOther = jOther
         then reducedRho[nat iBit :=
                (reducedRho ! nat iBit)[nat jBit := add (reducedRho ! nat iBit ! nat jBit) (rho ! i ! j)]]
         else reducedRho)"

definition getReducedDensityMatrix ::
  "'a::comm_ring_1 Complex QuantumState \<Rightarrow> int \<Rightarrow> error + 'a Complex list list" where
  "getReducedDensityMatrix this qubitIndex =
     (if qubitIndex \<ge> numQubits this then Inl (InvalidQubitIndex qubitIndex)
      else case getDensityMatrix this of
             Inl e \<Rightarrow> Inl e
           | Inr rho \<Rightarrow>
               let size = length (amplitudes this);
                   reducedRho = [[Complex 0 0, Complex 0 0], [Complex 0 0, Complex 0 0]]
               in Inr (fold (\<lambda>i. fold (reduced_body (numQubits this) qubitIndex rho i) [0..<size])
                         [0..<size] reducedRho))"

record 'a BlochVector =
  x :: 'a
  y :: 'a
  z :: 'a

definition getBlochVector ::
  "'a::comm_ring_1 Complex QuantumState \<Rightarrow> int \<Rightarrow> error + 'a BlochVector" where
  "getBlochVector this qubitIndex =
     (case getReducedDensityMatrix this qubitIndex of
        Inl e \<Rightarrow> Inl e
      | Inr rho \<Rightarrow>
          let sigmaX = add (rho ! 0 ! 1) (rho ! 1 ! 0);
              sigmaY = multiply (subtract (rho ! 0 ! 1) (rho ! 1 ! 0)) (Complex 0 (- 1));
              sigmaZ = subtract (rho ! 0 ! 0) (rho ! 1 ! 1)
          in Inr \<lparr>x = real sigmaX, y = real sigmaY, z = real sigmaZ\<rparr>)"

section \<open>QuantumGates\<close>

definition QuantumGates_X :: "'a::comm_ring_1 gate" where
  "QuantumGates_X = [[Complex 0 0, Complex 1 0],
                     [Complex 1 0, Complex 0 0]]"

definition QuantumGates_Y :: "'a::comm_ring_1 gate" where
  "QuantumGates_Y = [[Complex 0 0, Complex 0 (- 1)],
                     [Complex 0 1, Complex 0 0]]"

definition QuantumGates_Z :: "'a::comm_ring_1 gate" where
  "QuantumGates_Z = [[Complex 1 0, Complex 0 0],
                     [Complex 0 0, Complex (- 1) 0]]"

text \<open>
  The Hadamard gate; the parameter \<open>r\<close> stands for the number \<open>1/Math.sqrt(2)\<close>.
\<close>

definition QuantumGates_H :: "'a::comm_ring_1 \<Rightarrow> 'a gate" where
  "QuantumGates_H r = [[Complex r 0, Complex r 0],
                       [Complex r 0, Complex (- r) 0]]"

definition QuantumGates_S :: "'a::comm_ring_1 gate" where
  "QuantumGates_S = [[Complex 1 0, Complex 0 0],
                     [Complex 0 0, Complex 0 1]]"

section \<open>Circuit placements and depth\<close>

record QuantumGate =
  name :: string
  symbol :: string
  description :: string
  category :: string
  qubit :: int
  step :: int





section \<open>Running a circuit (QuantumVisualizer)\<close>

text \<open>
  The symbols are JavaScript strings; they are modelled by their UTF-8 bytes. The three
  Pauli symbols are the letter P followed by U+2093, U+1D67 and U+1D68.
\<close>

definition sym_PauliX :: string where
  "sym_PauliX = [CHR ''P'', CHR 0xE2, CHR 0x82, CHR 0x93]"

definition sym_PauliY :: string where
  "sym_PauliY = [CHR ''P'', CHR 0xE1, CHR 0xB5, CHR 0xA7]"

definition sym_PauliZ :: string where
  "sym_PauliZ = [CHR ''P'', CHR 0xE1, CHR 0xB5, CHR 0xA8]"

text \<open>
  The \<open>switch\<close> on \<open>gate.symbol\<close>, the same in \<open>handleCircuitRun\<close> and in
  \<open>updateSteppedState\<close>; the parameter \<open>r\<close> is the entry \<open>1/Math.sqrt(2)\<close> of \<open>H\<close>.
\<close>

definition switch_symbol ::
  "'a::comm_ring_1 \<Rightarrow> 'a Complex QuantumState \<Rightarrow> QuantumGate \<Rightarrow> error + 'a Complex QuantumState" where
  "switch_symbol r state gate =
     (if symbol gate = sym_PauliX then applyGate QuantumGates_X (qubit gate) state
      else if symbol gate = sym_PauliY then applyGate QuantumGates_Y (qubit gate) state
      else if symbol gate = sym_PauliZ then applyGate QuantumGates_Z (qubit gate) state
      else if symbol gate = ''H'' then applyGate (QuantumGates_H r) (qubit gate) state
      else if symbol gate = ''S'' then applyGate QuantumGates_S (qubit gate) state
      else Inr state)"

text \<open>
  The loop of \<open>updateSteppedState\<close> over the sorted placements, which leaves at the first
  placement whose step is not below \<open>step\<close>.
\<close>

fun stepped_loop ::
  "'a::comm_ring_1 \<Rightarrow> int \<Rightarrow> QuantumGate list \<Rightarrow> 'a Complex QuantumState \<Rightarrow>
   error + 'a Complex QuantumState" where
  "stepped_loop r stp [] state = Inr state"
| "stepped_loop r stp (gate # rest) state =
     (if step gate \<ge> stp then Inr state
      else case switch_symbol r state gate of
             Inl e \<Rightarrow> Inl e
           | Inr state' \<Rightarrow> stepped_loop r stp rest state')"

text \<open>\<open>Array.from({ length: numQubits }, (_, i) => f(i))\<close>, where \<open>f\<close> may raise.\<close>

fun mapE :: "('i \<Rightarrow> error + 'r) \<Rightarrow> 'i list \<Rightarrow> error + 'r list" where
  "mapE f [] = Inr []"
| "mapE f (i # is) =
     (case f i of
        Inl e \<Rightarrow> Inl e
      | Inr r \<Rightarrow> (case mapE f is of Inl e \<Rightarrow> Inl e | Inr rs \<Rightarrow> Inr (r # rs)))"

text \<open>
  The three variables of the component that a run writes (the full run writes
  \<open>quantumState\<close>, \<open>blochVectors\<close> and \<open>densityMatrices\<close>; the stepped run writes their
  \<open>stepped\<close> counterparts, modelled by the same record).
\<close>

record 'a views =
  quantumState :: "'a Complex QuantumState"
  blochVectors :: "'a BlochVector list"
  densityMatrices :: "'a Complex list list list"

text \<open>
  What follows the loop in both functions: the setters are called one after the other, so
  an error raised while the Bloch vectors or the density matrices are computed leaves the
  variables already set; the \<open>catch\<close> block only reports.
\<close>

definition set_views :: "int \<Rightarrow> 'a::comm_ring_1 Complex QuantumState \<Rightarrow> 'a views \<Rightarrow> 'a views" where
  "set_views n state v =
     (let v1 = v\<lparr>quantumState := state\<rparr> in
      case mapE (\<lambda>i. getBlochVector state (int i)) [0..<nat n] of
        Inl e \<Rightarrow> v1
      | Inr newBlochVectors \<Rightarrow>
          let v2 = v1\<lparr>blochVectors := newBlochVectors\<rparr> in
          case mapE (\<lambda>i. getReducedDensityMatrix state (int i)) [0..<nat n] of
            Inl e \<Rightarrow> v2
          | Inr newDensityMatrices \<Rightarrow> v2\<lparr>densityMatrices := newDensityMatrices\<rparr>)"

definition handleCircuitRun ::
  "'a::comm_ring_1 \<Rightarrow> int \<Rightarrow> QuantumGate list \<Rightarrow> 'a views \<Rightarrow> 'a views" where
  "handleCircuitRun r n gates v =
     (case new_QuantumState n None of
        Inl e \<Rightarrow> v
      | Inr state0 \<Rightarrow>
          let sortedGates = sort_key step gates in
          case foldE (switch_symbol r) sortedGates state0 of
            Inl e \<Rightarrow> v
          | Inr state \<Rightarrow> set_views n state v)"

definition updateSteppedState ::
  "'a::comm_ring_1 \<Rightarrow> int \<Rightarrow> int \<Rightarrow> QuantumGate list \<Rightarrow> 'a views \<Rightarrow> 'a views" where
  "updateSteppedState r n stp gateArray v =
     (case new_QuantumState n None of
        Inl e \<Rightarrow> v
      | Inr state0 \<Rightarrow>
          let sortedGates = sort_key step gateArray in
          case stepped_loop r stp sortedGates state0 of
            Inl e \<Rightarrow> v
          | Inr state \<Rightarrow> set_views n state v)"

subsection \<open>The run as the specification words it\<close>

text \<open>
  The executor of the specification: start from a fresh state; take the placements whose
  step is below the cutoff (all of them when there is no cutoff) in ascending order of
  step, placements of equal step in insertion order; map each symbol to its gate and
  apply it, skipping a placement whose symbol has no gate.
\<close>

definition symbol_gate :: "'a::comm_ring_1 \<Rightarrow> string \<Rightarrow> 'a gate option" where
  "symbol_gate r =
     map_of [(sym_PauliX, QuantumGates_X), (sym_PauliY, QuantumGates_Y),
             (sym_PauliZ, QuantumGates_Z), (''H'', QuantumGates_H r), (''S'', QuantumGates_S)]"

definition apply_placement ::
  "'a::comm_ring_1 \<Rightarrow> 'a Complex QuantumState \<Rightarrow> QuantumGate \<Rightarrow> error + 'a Complex QuantumState" where
  "apply_placement r state p =
     (case symbol_gate r (symbol p) of
        None \<Rightarrow> Inr state
      | Some g \<Rightarrow> applyGate g (qubit p) state)"

definition selected_placements :: "int option \<Rightarrow> QuantumGate list \<Rightarrow> QuantumGate list" where
  "selected_placements upToStepExclusive model =
     sort_key step
       (filter (\<lambda>p. case upToStepExclusive of None \<Rightarrow> True | Some c \<Rightarrow> step p < c) model)"

definition run_spec ::
  "'a::comm_ring_1 \<Rightarrow> QuantumGate list \<Rightarrow> int \<Rightarrow> int option \<Rightarrow> error + 'a Complex QuantumState" where
  "run_spec r model n upToStepExclusive =
     (case new_QuantumState n None of
        Inl e \<Rightarrow> Inl e
      | Inr fresh \<Rightarrow> foldE (apply_placement r) (selected_placements upToStepExclusive model) fresh)"

section \<open>The methods on a store of arrays\<close>

text \<open>
  Arrays are objects: two variables may refer to the same array, and a write through one
  is seen through the other. To state that a method leaves the arrays of its receiver
  alone, the methods are modelled once more on a store: a list of arrays, an array being
  referred to by its position, and a new array being appended. A \<open>QuantumState\<close> object
  holds the address of its amplitude array; its two fields are assigned in the
  constructor only. \<open>Complex\<close> objects are never written after their construction and stay
  values. The loops test \<open>state < this.amplitudes.length\<close> before every iteration, reading
  the store as it then is.
\<close>

type_synonym addr = nat
type_synonym 'a heap = "'a array list"

definition alloc :: "'a heap \<Rightarrow> 'a array \<Rightarrow> 'a heap \<times> addr" where
  "alloc h xs = (h @ [xs], length h)"

definition h_get :: "'a heap \<Rightarrow> addr \<Rightarrow> int \<Rightarrow> 'a option" where
  "h_get h a i = arr_get (h ! a) i"

definition h_set :: "'a heap \<Rightarrow> addr \<Rightarrow> int \<Rightarrow> 'a option \<Rightarrow> 'a heap" where
  "h_set h a i v = h[a := arr_set (h ! a) i v]"

record QuantumState_obj =
  obj_amplitudes :: addr
  obj_numQubits :: int

text \<open>
  The constructor: \<open>[...initialState]\<close> is a new array with the same slots;
  \<open>new Array(size).fill(null).map(f)\<close> is a new array filled with \<open>null\<close> (which, like
  \<open>undefined\<close>, is no \<open>Complex\<close> object, written \<open>None\<close>) and then a second new array
  built from it by \<open>map\<close>.
\<close>

definition new_QuantumState_h ::
  "'a::comm_ring_1 Complex heap \<Rightarrow> int \<Rightarrow> addr option \<Rightarrow>
   'a Complex heap \<times> (error + QuantumState_obj)" where
  "new_QuantumState_h h n initialState =
     (case initialState of
        Some init \<Rightarrow>
          (let (h', a) = alloc h (h ! init)
           in (h', Inr \<lparr>obj_amplitudes = a, obj_numQubits = n\<rparr>))
      | None \<Rightarrow>
          if 0 \<le> n \<and> n < 32
          then (let (h0, filled) = alloc h (replicate (2 ^ nat n) None);
                    (h', a) =
                      alloc h0 (map (\<lambda>i. Some (Complex (if i = 0 then 1 else 0) 0))
                                  [0..<length (h0 ! filled)])
                in (h', Inr \<lparr>obj_amplitudes = a, obj_numQubits = n\<rparr>))
          else (h, Inl RangeError))"


definition cnot_body_h :: "int \<Rightarrow> int \<Rightarrow> int \<Rightarrow> addr \<Rightarrow> 'a heap \<Rightarrow> nat \<Rightarrow> 'a heap" where
  "cnot_body_h n controlQubit targetQubit newAmplitudes h state =
     (let controlBit = js_and (js_shr (int state) (n - 1 - controlQubit)) 1;
          targetBit = js_and (js_shr (int state) (n - 1 - targetQubit)) 1
      in if controlBit = 1 then
           let newTargetBit = 1 - targetBit;
               newState = js_xor (int state) (js_shl 1 (n - 1 - targetQubit));
               temp = h_get h newAmplitudes (int state);
               h1 = h_set h newAmplitudes (int state) (h_get h newAmplitudes newState)
           in h_set h1 newAmplitudes newState temp
         else h)"

partial_function (option) cnot_loop_h ::
  "int \<Rightarrow> int \<Rightarrow> int \<Rightarrow> addr \<Rightarrow> addr \<Rightarrow> nat \<Rightarrow> 'a heap \<Rightarrow> 'a heap option" where
  "cnot_loop_h n controlQubit targetQubit this_amplitudes newAmplitudes state h =
     (if state < length (h ! this_amplitudes)
      then cnot_loop_h n controlQubit targetQubit this_amplitudes newAmplitudes (Suc state)
             (cnot_body_h n controlQubit targetQubit newAmplitudes h state)
      else Some h)"

text \<open>
  \<open>applyCNOT\<close>: \<open>newAmplitudes\<close> is a copy of the amplitudes; the loop writes into it; the
  constructor copies it again.
\<close>

definition applyCNOT_h ::
  "'a::comm_ring_1 Complex heap \<Rightarrow> QuantumState_obj \<Rightarrow> int \<Rightarrow> int \<Rightarrow>
   ('a Complex heap \<times> (error + QuantumState_obj)) option" where
  "applyCNOT_h h this controlQubit targetQubit =
     (let (h1, newAmplitudes) = alloc h (h ! obj_amplitudes this)
      in case cnot_loop_h (obj_numQubits this) controlQubit targetQubit
                (obj_amplitudes this) newAmplitudes 0 h1 of
           None \<Rightarrow> None
         | Some h2 \<Rightarrow> Some (new_QuantumState_h h2 (obj_numQubits this) (Some newAmplitudes)))"






section \<open>Auxiliary definitions for the proofs\<close>

text \<open>
  The array after the loop of \<open>applyCNOT\<close> has visited the indices below \<open>k\<close>: a pair
  of partner indices is exchanged when exactly one of the two has been visited.
\<close>

definition half_swapped :: "nat \<Rightarrow> nat \<Rightarrow> nat \<Rightarrow> 'a list \<Rightarrow> 'a list" where
  "half_swapped cp tp k xs =
     map (\<lambda>i. if bit i cp \<and> (i < k) \<noteq> (i XOR 2 ^ tp < k) then xs ! (i XOR 2 ^ tp) else xs ! i)
       [0..<length xs]"

text \<open>
  The amplitude array of the basis state with index \<open>k\<close> on \<open>N\<close> qubits, its density
  matrix, and the shape of a gate whose four entries are all there.
\<close>

definition basis :: "nat \<Rightarrow> nat \<Rightarrow> 'a::comm_ring_1 Complex array" where
  "basis N k = map (\<lambda>i. Some (Complex (if i = k then 1 else 0) 0)) [0..<2 ^ N]"

definition wf_gate :: "'a gate \<Rightarrow> bool" where
  "wf_gate g \<longleftrightarrow> length g = 2 \<and> (\<forall>row \<in> set g. length row = 2)"

definition basis_rho :: "nat \<Rightarrow> nat \<Rightarrow> 'a::comm_ring_1 Complex list list" where
  "basis_rho N k =
     map (\<lambda>i. map (\<lambda>j. Complex (if i = k \<and> j = k then 1 else 0) 0) [0..<2 ^ N]) [0..<2 ^ N]"

section \<open>Results\<close>

subsection \<open>The 32-bit operators on indices in range\<close>

lemma ToInt32_id: "0 \<le> a \<Longrightarrow> a < 2 ^ 31 \<Longrightarrow> ToInt32 a = a"
  unfolding ToInt32_def by (rule signed_take_bit_int_eq_self) auto

lemma ToInt32_nat: "s < 2 ^ 31 \<Longrightarrow> ToInt32 (int s) = int s"
  by (rule ToInt32_id) auto

lemma shiftCount_id: "0 \<le> k \<Longrightarrow> k < 32 \<Longrightarrow> shiftCount k = nat k"
  by (simp add: shiftCount_def)

lemma js_bit:
  assumes "s < 2 ^ 31" "0 \<le> k" "k < 32"
  shows "js_and (js_shr (int s) k) 1 = of_bool (bit s (nat k))"
proof -
  have "drop_bit (nat k) s \<le> s" by (simp add: drop_bit_eq_div)
  with assms have "drop_bit (nat k) s < 2 ^ 31" by simp
  then have b: "ToInt32 (int (drop_bit (nat k) s)) = int (drop_bit (nat k) s)"
    by (rule ToInt32_nat)
  have c: "ToInt32 1 = 1" by (intro ToInt32_id) auto
  have "js_and (js_shr (int s) k) 1 = int (drop_bit (nat k) s) AND 1"
    using assms by (simp add: js_and_def js_shr_def ToInt32_nat b c shiftCount_id drop_bit_of_nat)
  also have "\<dots> = of_bool (bit s (nat k))"
    by (simp add: and_one_eq bit_iff_odd_drop_bit mod_2_eq_odd)
  finally show ?thesis .
qed

lemma js_mask:
  assumes "0 \<le> k" "k < 31"
  shows "js_shl 1 k = 2 ^ nat k"
proof -
  have c: "ToInt32 1 = 1" by (intro ToInt32_id) auto
  have "(2::int) ^ nat k < 2 ^ 31" using assms by (intro power_strict_increasing) auto
  then have "ToInt32 (2 ^ nat k) = 2 ^ nat k" by (intro ToInt32_id) auto
  then show ?thesis using assms by (simp add: js_shl_def c shiftCount_id)
qed

lemma xor_exp_less:
  fixes s :: nat
  assumes "s < 2 ^ n" "p < n"
  shows "s XOR 2 ^ p < 2 ^ n"
proof -
  have "take_bit n (s XOR 2 ^ p) = s XOR 2 ^ p"
    using assms by (simp add: take_bit_xor take_bit_nat_eq_self)
  then show ?thesis by (metis take_bit_nat_less_exp)
qed

lemma js_flip:
  assumes "s < 2 ^ 31" "p < 31"
  shows "js_xor (int s) (2 ^ p) = int (s XOR 2 ^ p)"
proof -
  have "(2::int) ^ p < 2 ^ 31" using assms by (intro power_strict_increasing) auto
  then have "ToInt32 (2 ^ p) = 2 ^ p" by (intro ToInt32_id) auto
  then show ?thesis using assms by (simp add: js_xor_def ToInt32_nat of_nat_xor_eq)
qed

lemma xor_exp_neq: "(s::nat) XOR 2 ^ p \<noteq> s"
  by (metis bit_exp_iff bit_xor_iff possible_bit_nat)

lemma xor_exp_twice: "((s::nat) XOR 2 ^ p) XOR 2 ^ p = s"
  by (simp add: xor.assoc)

lemma bit_xor_exp_other: "c \<noteq> p \<Longrightarrow> bit ((s::nat) XOR 2 ^ p) c = bit s c"
  by (simp add: bit_xor_iff bit_exp_iff)

subsection \<open>The loop of applyCNOT\<close>

lemma cnot_body_in_range:
  assumes len: "length xs = 2 ^ N" and N: "N < 32"
    and cp: "n - 1 - c = int cp" "cp < N" and tp: "n - 1 - t = int tp" "tp < N"
    and s: "s < 2 ^ N"
  shows "cnot_body n c t xs s =
           (if bit s cp then (xs[s := xs ! (s XOR 2 ^ tp)])[s XOR 2 ^ tp := xs ! s] else xs)"
proof -
  have "(2::nat) ^ N \<le> 2 ^ 31" using N by (intro power_increasing) auto
  with s have s31: "s < 2 ^ 31" by simp
  have s': "s XOR 2 ^ tp < 2 ^ N" using s tp by (intro xor_exp_less)
  have bitc: "js_and (js_shr (int s) (n - 1 - c)) 1 = of_bool (bit s cp)"
    using js_bit [OF s31, of "int cp"] cp N by simp
  have mask: "js_shl 1 (n - 1 - t) = 2 ^ tp"
    using js_mask [of "int tp"] tp N by simp
  have flip: "js_xor (int s) (2 ^ tp) = int (s XOR 2 ^ tp)"
    using js_flip [OF s31, of tp] tp N by simp
  show ?thesis
    using s s' len
    by (simp add: cnot_body_def bitc mask flip arr_get_def arr_set_def Let_def)
qed

lemma cnot_loop_prefix:
  assumes len: "length xs = 2 ^ N" and N: "N < 32"
    and cp: "n - 1 - c = int cp" "cp < N" and tp: "n - 1 - t = int tp" "tp < N"
    and neq: "cp \<noteq> tp"
  shows "k \<le> 2 ^ N \<Longrightarrow> foldl (cnot_body n c t) xs [0..<k] = half_swapped cp tp k xs"
proof (induction k)
  case 0
  show ?case by (simp add: half_swapped_def map_nth)
next
  case (Suc k)
  let ?ys = "half_swapped cp tp k xs"
  let ?k' = "k XOR 2 ^ tp"
  have k: "k < 2 ^ N" using Suc.prems by simp
  have k': "?k' < 2 ^ N" using k tp by (intro xor_exp_less)
  have lys: "length ?ys = 2 ^ N" by (simp add: half_swapped_def len)
  have "foldl (cnot_body n c t) xs [0..<Suc k] = cnot_body n c t ?ys k"
    using Suc by simp
  also have "\<dots> = (if bit k cp then (?ys[k := ?ys ! ?k'])[?k' := ?ys ! k] else ?ys)"
    by (rule cnot_body_in_range [OF lys N cp tp k])
  also have "\<dots> = half_swapped cp tp (Suc k) xs"
  proof (rule nth_equalityI)
    show "length (if bit k cp then (?ys[k := ?ys ! ?k'])[?k' := ?ys ! k] else ?ys)
            = length (half_swapped cp tp (Suc k) xs)"
      by (simp add: half_swapped_def)
  next
    fix i
    assume "i < length (if bit k cp then (?ys[k := ?ys ! ?k'])[?k' := ?ys ! k] else ?ys)"
    then have i: "i < 2 ^ N" by (simp add: lys split: if_splits)
    have i': "i XOR 2 ^ tp < 2 ^ N" using i tp by (intro xor_exp_less)
    have nk: "?k' \<noteq> k" by (rule xor_exp_neq)
    have kk: "?k' XOR 2 ^ tp = k" by (rule xor_exp_twice)
    have bk: "bit ?k' cp = bit k cp" using neq by (rule bit_xor_exp_other)
    have ik: "i XOR 2 ^ tp = k \<longleftrightarrow> i = ?k'" using xor_exp_twice by metis
    have ik': "i XOR 2 ^ tp = ?k' \<longleftrightarrow> i = k" using xor_exp_twice by metis
    have lt: "(?k' < Suc k) = (?k' < k)" using nk by auto
    consider "i = k" | "i = ?k'" | "i \<noteq> k" "i \<noteq> ?k'" by blast
    then show "(if bit k cp then (?ys[k := ?ys ! ?k'])[?k' := ?ys ! k] else ?ys) ! i
                 = half_swapped cp tp (Suc k) xs ! i"
    proof cases
      case 1
      then show ?thesis using k k' nk lt
        by (auto simp: half_swapped_def len lys kk bk)
    next
      case 2
      then show ?thesis using k k' nk lt
        by (auto simp: half_swapped_def len lys kk bk)
    next
      case 3
      then have "(i < Suc k) = (i < k)" "(i XOR 2 ^ tp < Suc k) = (i XOR 2 ^ tp < k)"
        using ik by auto
      then show ?thesis using 3 i i' k k'
        by (simp add: half_swapped_def len lys)
    qed
  qed
  finally show ?case .
qed

lemma applyCNOT_array_identity:
  assumes len: "length xs = 2 ^ N" and N: "N < 32"
    and cp: "n - 1 - c = int cp" "cp < N" and tp: "n - 1 - t = int tp" "tp < N"
    and neq: "cp \<noteq> tp"
  shows "applyCNOT_array n c t xs = xs"
proof -
  have "applyCNOT_array n c t xs = half_swapped cp tp (2 ^ N) xs"
    using cnot_loop_prefix [OF assms, of "2 ^ N"] by (simp add: applyCNOT_array_def len)
  also have "\<dots> = xs"
  proof (rule nth_equalityI)
    show "length (half_swapped cp tp (2 ^ N) xs) = length xs" by (simp add: half_swapped_def)
  next
    fix i assume "i < length (half_swapped cp tp (2 ^ N) xs)"
    then have i: "i < 2 ^ N" by (simp add: half_swapped_def len)
    then have "i XOR 2 ^ tp < 2 ^ N" using tp by (intro xor_exp_less)
    with i show "half_swapped cp tp (2 ^ N) xs ! i = xs ! i"
      by (simp add: half_swapped_def len)
  qed
  finally show ?thesis .
qed

subsection \<open>applyGate, the reduced density matrix and the Bloch vector on basis states\<close>

lemma ToInt32_range: "- (2 ^ 31) \<le> a \<Longrightarrow> a < 2 ^ 31 \<Longrightarrow> ToInt32 a = a"
  unfolding ToInt32_def by (rule signed_take_bit_int_eq_self)

lemma exp_less_31: "p < 31 \<Longrightarrow> (2::int) ^ p < 2 ^ 31"
  by (rule power_strict_increasing) auto

lemma js_clear:
  assumes "s < 2 ^ 31" "0 \<le> k" "k < 31"
  shows "js_and (int s) (js_not (js_shl 1 k)) = int s AND NOT (2 ^ nat k)"
proof -
  have e: "(2::int) ^ nat k < 2 ^ 31" using assms by (intro exp_less_31) auto
  then have a: "ToInt32 (2 ^ nat k) = 2 ^ nat k" by (intro ToInt32_id) auto
  have "ToInt32 (NOT (2 ^ nat k)) = NOT (2 ^ nat k)"
  proof (rule ToInt32_range)
    have "(0::int) < 2 ^ nat k" by simp
    with e show "- (2 ^ 31) \<le> NOT ((2::int) ^ nat k)" by (simp add: not_int_def)
    show "NOT ((2::int) ^ nat k) < 2 ^ 31" by (simp add: not_int_def) (smt (verit) zero_less_power)
  qed
  then show ?thesis using assms by (simp add: js_and_def js_not_def js_mask a ToInt32_nat)
qed

lemma js_newState:
  assumes s: "s < 2 ^ N" and N: "N < 32" and k: "0 \<le> k" "nat k < N" and b: "b = 0 \<or> b = 1"
  shows "\<exists>m < 2 ^ N. js_or (js_and (int s) (js_not (js_shl 1 k))) (js_shl b k) = int m"
proof -
  let ?p = "nat k"
  have N31: "(2::nat) ^ N \<le> 2 ^ 31" using N by (intro power_increasing) auto
  have iN31: "(2::int) ^ N \<le> 2 ^ 31" using N by (intro power_increasing) auto
  have s31: "s < 2 ^ 31" using s N31 by simp
  have k31: "k < 31" using k N by simp
  have e: "(2::int) ^ ?p < 2 ^ N" using k by (intro power_strict_increasing) auto
  let ?x = "int s AND NOT (2 ^ ?p)"
  have x0: "0 \<le> ?x" by simp
  have "?x \<le> int s" by (rule AND_upper1) simp
  moreover have "int s < 2 ^ N" using s by simp
  ultimately have xN: "?x < 2 ^ N" by simp
  have shl: "js_shl b k = (if b = 0 then 0 else 2 ^ ?p)"
    using b js_mask [OF k(1) k31] by (auto simp: js_shl_def ToInt32_def)
  let ?y = "if b = 0 then 0 else (2::int) ^ ?p"
  have y0: "0 \<le> ?y" by simp
  have yN: "?y < 2 ^ N" using e by simp
  have xy0: "0 \<le> ?x OR ?y" using x0 y0 by simp
  have xyN: "?x OR ?y < 2 ^ N" using x0 xN yN by (rule OR_upper)
  have tx: "ToInt32 ?x = ?x" using x0 xN iN31 by (intro ToInt32_id) auto
  have ty: "ToInt32 ?y = ?y" using y0 yN iN31 by (intro ToInt32_id) auto
  have "js_or (js_and (int s) (js_not (js_shl 1 k))) (js_shl b k) = ?x OR ?y"
    using js_clear [OF s31 k(1) k31] tx ty by (simp add: js_or_def shl)
  moreover have "?x OR ?y = int (nat (?x OR ?y))" using xy0 by simp
  moreover have "nat (?x OR ?y) < 2 ^ N" using xyN xy0
    by (simp add: nat_less_iff)
  ultimately show ?thesis by metis
qed

lemma Complex_add_zero [simp]: "add c (Complex 0 0) = c"
  by (cases c) (simp add: add_def)

lemma Complex_multiply_zero_left [simp]: "multiply (Complex 0 0) g = Complex 0 0"
  by (simp add: multiply_def)

lemma foldE_unchanged: "(\<And>x. x \<in> set xs \<Longrightarrow> f s x = Inr s) \<Longrightarrow> foldE f xs s = Inr s"
  by (induction xs) auto

lemma foldE_append:
  "foldE f (xs @ ys) s = (case foldE f xs s of Inl e \<Rightarrow> Inl e | Inr s' \<Rightarrow> foldE f ys s')"
  by (induction xs arbitrary: s) (auto split: sum.splits)

lemma fold_unchanged: "(\<And>x. x \<in> set xs \<Longrightarrow> f x s = s) \<Longrightarrow> fold f xs s = s"
  by (induction xs) auto

lemma list_get_gate:
  assumes "wf_gate g" "b = 0 \<or> b = 1" "c = 0 \<or> c = 1"
  shows "\<exists>row. list_get g b = Some row \<and> list_get row c = Some (g ! nat b ! nat c)"
  using assms by (auto simp: wf_gate_def list_get_def)

lemma js_bit_01:
  assumes "s < 2 ^ 31" "0 \<le> k" "k < 32"
  shows "js_and (js_shr (int s) k) 1 = 0 \<or> js_and (js_shr (int s) k) 1 = 1"
  using js_bit [OF assms] by simp

lemma applyGate_inner_zero_amp:
  assumes s: "s < 2 ^ N" and N: "N < 32" and q: "0 \<le> n - 1 - q" "nat (n - 1 - q) < N"
    and b: "b = 0 \<or> b = 1" and g: "wf_gate g"
    and amp: "amps ! s = Some (Complex 0 0)" and la: "length amps = 2 ^ N"
    and new: "length new = 2 ^ N" "None \<notin> set new"
  shows "applyGate_inner g n q amps s new b = Inr new"
proof -
  have N31: "(2::nat) ^ N \<le> 2 ^ 31" using N by (intro power_increasing) auto
  have s31: "s < 2 ^ 31" using s N31 by simp
  have k32: "n - 1 - q < 32" using q N by simp
  obtain m where m: "m < 2 ^ N"
    "js_or (js_and (int s) (js_not (js_shl 1 (n - 1 - q)))) (js_shl b (n - 1 - q)) = int m"
    using js_newState [OF s N q b] by blast
  obtain cur where cur: "new ! m = Some cur"
    using new m(1) by (metis nth_mem not_None_eq)
  obtain row where row: "list_get g b = Some row"
    "list_get row (js_and (js_shr (int s) (n - 1 - q)) 1)
       = Some (g ! nat b ! nat (js_and (js_shr (int s) (n - 1 - q)) 1))"
    using list_get_gate [OF g b js_bit_01 [OF s31 q(1) k32]] by blast
  have "new[m := Some cur] = new" using cur by (metis list_update_id)
  then show ?thesis
    using m(1) s cur amp la new(1)
    by (simp add: applyGate_inner_def m(2) row arr_get_def arr_set_def Let_def)
qed

lemma applyGate_body_zero_amp:
  assumes s: "s < 2 ^ N" and N: "N < 32" and q: "0 \<le> n - 1 - q" "nat (n - 1 - q) < N"
    and g: "wf_gate g"
    and amp: "amps ! s = Some (Complex 0 0)" and la: "length amps = 2 ^ N"
    and new: "length new = 2 ^ N" "None \<notin> set new"
  shows "applyGate_body g n q amps new s = Inr new"
  using applyGate_inner_zero_amp [OF s N q _ g amp la new]
  by (simp add: applyGate_body_def)

lemma length_basis [simp]: "length (basis N k) = 2 ^ N"
  by (simp add: basis_def)

lemma nth_basis: "i < 2 ^ N \<Longrightarrow> basis N k ! i = Some (Complex (if i = k then 1 else 0) 0)"
  by (simp add: basis_def)

lemma basis_defined: "None \<notin> set (basis N k)"
  by (auto simp: basis_def)

lemma zeros_update_basis:
  "k < 2 ^ N \<Longrightarrow> (replicate (2 ^ N) (Some (Complex 0 0)))[k := Some (Complex 1 0)] = basis N k"
  by (rule nth_equalityI) (auto simp: nth_basis nth_list_update)

lemma applyGate_body_X_state0:
  assumes N: "N < 32" and q: "0 \<le> n - 1 - q" "nat (n - 1 - q) < N"
  shows "applyGate_body QuantumGates_X n q (basis N 0) (replicate (2 ^ N) (Some (Complex 0 0))) 0
           = Inr (basis N (2 ^ nat (n - 1 - q)))"
proof -
  let ?p = "nat (n - 1 - q)"
  have k31: "n - 1 - q < 31" using q N by simp
  have e: "(2::nat) ^ ?p < 2 ^ N" using q by (intro power_strict_increasing) auto
  have ie: "(2::int) ^ ?p < 2 ^ N" using q by (intro power_strict_increasing) auto
  have bit0: "js_and (js_shr 0 (n - 1 - q)) 1 = 0"
    using js_bit [of 0 "n - 1 - q"] q k31 by simp
  have t0: "ToInt32 0 = 0" by (simp add: ToInt32_def)
  have shl0: "js_shl 0 (n - 1 - q) = 0" by (simp add: js_shl_def t0)
  have shl1: "js_shl 1 (n - 1 - q) = 2 ^ ?p" using js_mask q k31 by simp
  have clr: "js_and 0 (js_not (2 ^ ?p)) = 0"
    using js_clear [of 0 "n - 1 - q"] q k31 by (simp add: shl1)
  have te: "ToInt32 (2 ^ ?p) = 2 ^ ?p" using exp_less_31 [of ?p] k31 q by (intro ToInt32_id) auto
  have or0: "js_or 0 0 = 0" by (simp add: js_or_def t0)
  have or1: "js_or 0 (2 ^ ?p) = 2 ^ ?p" by (simp add: js_or_def t0 te)
  have idx: "nat ((2::int) ^ ?p) = 2 ^ ?p" by (simp add: nat_power_eq)
  have upd0: "(replicate (2 ^ N) (Some (Complex (0::'a) 0)))[0 := Some (Complex 0 0)]
                = replicate (2 ^ N) (Some (Complex 0 0))"
    by (rule nth_equalityI) (auto simp: nth_list_update)
  show ?thesis
    using e ie
    by (simp add: applyGate_body_def applyGate_inner_def bit0 clr shl0 shl1 or0 or1 idx
        list_get_def QuantumGates_X_def arr_get_def arr_set_def nth_basis Let_def
        multiply_def add_def upd0 zeros_update_basis)
qed

lemma applyGate_X_zero:
  assumes N: "N < 32" and n: "n = int N" and q: "0 \<le> q" "q < n"
  shows "applyGate QuantumGates_X q \<lparr>amplitudes = basis N 0, numQubits = n\<rparr>
           = Inr \<lparr>amplitudes = basis N (2 ^ nat (n - 1 - q)), numQubits = n\<rparr>"
proof -
  let ?p = "nat (n - 1 - q)"
  let ?body = "applyGate_body (QuantumGates_X :: 'a gate) n q (basis N 0)"
  have q': "0 \<le> n - 1 - q" "?p < N" using q n by auto
  have g: "wf_gate (QuantumGates_X :: 'a gate)" by (simp add: wf_gate_def QuantumGates_X_def)
  have upt: "[0..<2 ^ N] = 0 # [1..<2 ^ N]" by (simp add: upt_rec)
  have rest: "foldE ?body [Suc 0..<2 ^ N] (basis N (2 ^ ?p)) = Inr (basis N (2 ^ ?p))"
  proof (rule foldE_unchanged)
    fix s assume "s \<in> set [Suc 0..<2 ^ N]"
    then have s: "s < 2 ^ N" "s \<noteq> 0" by auto
    then have amp: "basis N 0 ! s = Some (Complex (0::'a) 0)" by (simp add: nth_basis)
    show "?body (basis N (2 ^ ?p)) s = Inr (basis N (2 ^ ?p))"
      by (rule applyGate_body_zero_amp [OF s(1) N q' g amp]) (simp_all add: basis_defined)
  qed
  have first: "?body (replicate (2 ^ N) (Some (Complex 0 0))) 0 = Inr (basis N (2 ^ ?p))"
    by (rule applyGate_body_X_state0 [OF N q'])
  have "foldE ?body [0..<2 ^ N] (replicate (2 ^ N) (Some (Complex 0 0))) = Inr (basis N (2 ^ ?p))"
    unfolding upt by (simp add: first rest del: upt_Suc)
  then show ?thesis by (simp add: applyGate_def new_QuantumState_def)
qed

lemma those_map_Some: "those (map (\<lambda>i. Some (f i)) xs) = Some (map f xs)"
  by (induction xs) auto

lemma reduced_body_zero: "rho ! i ! j = Complex 0 0 \<Longrightarrow> reduced_body n q rho i j m = m"
  by (simp add: reduced_body_def Let_def)

lemma upt_split: "k < n \<Longrightarrow> [0..<n] = [0..<k] @ k # [Suc k..<n]"
  using upt_add_eq_append [of 0 k "n - k"] upt_conv_Cons [of k n] by simp

lemma fold_single_change:
  assumes "k < n" and "\<And>i m. i < n \<Longrightarrow> i \<noteq> k \<Longrightarrow> f i m = m"
  shows "fold f [0..<n] m = f k m"
proof -
  have "fold f [0..<k] m = m"
    by (rule fold_unchanged) (use assms in auto)
  moreover have "fold f [Suc k..<n] (f k m) = f k m"
    by (rule fold_unchanged) (use assms in auto)
  ultimately show ?thesis
    unfolding upt_split [OF assms(1)] by simp
qed

lemma reduced_row_other:
  assumes "\<And>j. j < sz \<Longrightarrow> rho ! i ! j = Complex 0 0"
  shows "fold (reduced_body n q rho i) [0..<sz] m = m"
  by (rule fold_unchanged) (simp add: assms reduced_body_zero)

lemma getDensityMatrix_basis:
  "getDensityMatrix \<lparr>amplitudes = basis N k, numQubits = n\<rparr> = Inr (basis_rho N k)"
  by (simp add: getDensityMatrix_def basis_def those_map_Some basis_rho_def multiply_def
      conjugate_def comp_def)

lemma basis_rho_nth:
  "i < 2 ^ N \<Longrightarrow> j < 2 ^ N \<Longrightarrow> basis_rho N k ! i ! j = Complex (if i = k \<and> j = k then 1 else 0) 0"
  by (simp add: basis_rho_def)

lemma reduced_body_diag:
  assumes k: "k < 2 ^ N" and N: "N < 32" and q: "0 \<le> n - 1 - q" "n - 1 - q < 32"
  shows "reduced_body n q (basis_rho N k) k k [[Complex 0 0, Complex 0 0], [Complex 0 0, Complex 0 0]]
         = (if bit k (nat (n - 1 - q))
            then [[Complex 0 0, Complex 0 0], [Complex 0 0, Complex 1 0]]
            else [[Complex 1 0, Complex 0 0], [Complex 0 0, Complex 0 0]])"
proof -
  have "(2::nat) ^ N \<le> 2 ^ 31" using N by (intro power_increasing) auto
  with k have k31: "k < 2 ^ 31" by simp
  show ?thesis
    using k by (simp add: reduced_body_def js_bit [OF k31 q] basis_rho_nth add_def Let_def)
qed

lemma getReducedDensityMatrix_basis:
  assumes k: "k < 2 ^ N" and N: "N < 32" and n: "n = int N" and q: "0 \<le> q" "q < n"
  shows "getReducedDensityMatrix \<lparr>amplitudes = basis N k, numQubits = n\<rparr> q
         = Inr (if bit k (nat (n - 1 - q))
                then [[Complex 0 0, Complex 0 0], [Complex 0 0, Complex 1 0]]
                else [[Complex 1 0, Complex 0 0], [Complex 0 0, Complex 0 0]])"
proof -
  let ?rho = "basis_rho N k :: 'a Complex list list"
  let ?zero = "[[Complex 0 0, Complex 0 0], [Complex 0 0, Complex 0 0]] :: 'a Complex list list"
  let ?res = "(if bit k (nat (n - 1 - q))
                then [[Complex 0 0, Complex 0 0], [Complex 0 0, Complex 1 0]]
                else [[Complex 1 0, Complex 0 0], [Complex 0 0, Complex 0 0]]) :: 'a Complex list list"
  let ?row = "\<lambda>i. fold (reduced_body n q ?rho i) [0..<2 ^ N]"
  have q': "0 \<le> n - 1 - q" "n - 1 - q < 32" using q n N by auto
  have other: "?row i m = m" if "i < 2 ^ N" "i \<noteq> k" for i m
    using that by (intro reduced_row_other) (simp add: basis_rho_nth)
  have "fold ?row [0..<2 ^ N] ?zero = ?row k ?zero"
    using k other by (rule fold_single_change)
  also have "\<dots> = reduced_body n q ?rho k k ?zero"
    using k by (rule fold_single_change) (simp add: reduced_body_zero basis_rho_nth k)
  also have "\<dots> = ?res"
    by (rule reduced_body_diag [OF k N q'])
  finally have "fold ?row [0..<2 ^ N] ?zero = ?res" .
  then show ?thesis
    using q by (simp add: getReducedDensityMatrix_def getDensityMatrix_basis)
qed

lemma getBlochVector_basis:
  assumes k: "k < 2 ^ N" and N: "N < 32" and n: "n = int N" and q: "0 \<le> q" "q < n"
  shows "getBlochVector \<lparr>amplitudes = basis N k, numQubits = n\<rparr> q
         = Inr \<lparr>x = 0, y = 0, z = (if bit k (nat (n - 1 - q)) then - 1 else 1)\<rparr>"
  by (simp add: getBlochVector_def getReducedDensityMatrix_basis [OF assms]
      add_def subtract_def multiply_def)

subsection \<open>The constructor and the length of the initial amplitudes\<close>

text \<open>
  C2, as the specification states it, fails: given an initial amplitude sequence of length
  1 for 2 qubits, the constructor returns a state holding that sequence.
\<close>

theorem constructor_wrong_length_counterexample:
  "new_QuantumState 2 (Some [Some (Complex (1::int) 0)]) =
     Inr \<lparr>amplitudes = [Some (Complex 1 0)], numQubits = 2\<rparr>
   \<and> length [Some (Complex (1::int) 0)] \<noteq> 2 ^ 2"
  by (simp add: new_QuantumState_def)

text \<open>
  C2, amended: given an initial amplitude sequence, the constructor never fails; it
  returns a state that holds the given number of qubits and, observed through
  \<open>getAmplitudes\<close>, exactly the given sequence, whatever its length.
\<close>

theorem constructor_keeps_initial_state:
  "\<exists>s. new_QuantumState n (Some init) = Inr s \<and> getAmplitudes s = init \<and> getNumQubits s = n"
  by (simp add: new_QuantumState_def getAmplitudes_def getNumQubits_def)

subsection \<open>Depth of a circuit\<close>





subsection \<open>applyCNOT on basis states\<close>

text \<open>
  C1 at the basis state |10> of two qubits (amplitude 1 at index 2): \<open>applyCNOT(0, 1)\<close>
  returns the state it was given, not |11> (amplitude 1 at index 3).
\<close>

theorem applyCNOT_on_10_unchanged:
  "applyCNOT \<lparr>amplitudes = [Some (Complex 0 0), Some (Complex 0 0),
                            Some (Complex (1::int) 0), Some (Complex 0 0)],
              numQubits = 2\<rparr> 0 1
   = Inr \<lparr>amplitudes = [Some (Complex 0 0), Some (Complex 0 0),
                         Some (Complex 1 0), Some (Complex 0 0)],
           numQubits = 2\<rparr>"
  by (simp add: applyCNOT_def new_QuantumState_def applyCNOT_array_def cnot_body_def
      js_and_def js_shr_def js_xor_def js_shl_def ToInt32_def shiftCount_def
      arr_get_def arr_set_def upt_rec Let_def)

text \<open>
  C10, as stated for every state, fails: the constructor keeps an amplitude array of any
  length, and on three amplitudes for 2 qubits \<open>applyCNOT(0, 1)\<close> exchanges index 2 with
  index 3, which is outside the array; the result has four slots, the third undefined.
\<close>

theorem applyCNOT_short_array_counterexample:
  "applyCNOT \<lparr>amplitudes = [Some (Complex 1 0), Some (Complex 2 0), Some (Complex (3::int) 0)],
              numQubits = 2\<rparr> 0 1
   = Inr \<lparr>amplitudes = [Some (Complex 1 0), Some (Complex 2 0), None, Some (Complex 3 0)],
           numQubits = 2\<rparr>
   \<and> applyCNOT \<lparr>amplitudes = [Some (Complex 1 0), Some (Complex 2 0), Some (Complex (3::int) 0)],
                numQubits = 2\<rparr> 0 1
     \<noteq> Inr \<lparr>amplitudes = [Some (Complex 1 0), Some (Complex 2 0), Some (Complex 3 0)],
             numQubits = 2\<rparr>"
  by (simp add: applyCNOT_def new_QuantumState_def applyCNOT_array_def cnot_body_def
      js_and_def js_shr_def js_xor_def js_shl_def ToInt32_def shiftCount_def
      arr_get_def arr_set_def upt_rec Let_def)

text \<open>
  C10, amended: for a state of at least two qubits whose amplitude array has exactly
  \<open>2 ^ numQubits\<close> slots (so fewer than 32 qubits, an array having fewer than \<open>2 ^ 32\<close>
  slots) and distinct qubits \<open>control\<close> and \<open>target\<close> in range, \<open>applyCNOT\<close> returns a
  state equal to the one it was applied to: each pair is exchanged twice.
\<close>

theorem applyCNOT_is_identity:
  assumes "length (amplitudes s) = 2 ^ nat (numQubits s)"
    and "2 \<le> numQubits s" and "numQubits s < 32"
    and "0 \<le> control" and "control < numQubits s"
    and "0 \<le> target" and "target < numQubits s"
    and "control \<noteq> target"
  shows "applyCNOT s control target = Inr s"
proof -
  have "applyCNOT_array (numQubits s) control target (amplitudes s) = amplitudes s"
    using assms
    by (intro applyCNOT_array_identity [where N = "nat (numQubits s)"
          and cp = "nat (numQubits s - 1 - control)" and tp = "nat (numQubits s - 1 - target)"])
       auto
  then show ?thesis by (simp add: applyCNOT_def new_QuantumState_def)
qed

theorem applyCNOT_is_identity_witness:
  "applyCNOT \<lparr>amplitudes = [Some (Complex 1 0), Some (Complex 2 0),
                            Some (Complex (3::int) 0), Some (Complex 0 4)],
              numQubits = 2\<rparr> 1 0
   = Inr \<lparr>amplitudes = [Some (Complex 1 0), Some (Complex 2 0),
                         Some (Complex 3 0), Some (Complex 0 4)],
           numQubits = 2\<rparr>"
  using applyCNOT_is_identity
    [of "\<lparr>amplitudes = [Some (Complex 1 0), Some (Complex 2 0),
                          Some (Complex (3::int) 0), Some (Complex 0 4)],
            numQubits = 2\<rparr>" 1 0]
  by simp

subsection \<open>The Bloch vector of the all-zero state, before and after X\<close>

text \<open>
  C7: for a qubit \<open>q\<close> of the fresh \<open>n\<close>-qubit state (which exists for \<open>n < 32\<close>),
  \<open>getBlochVector(q)\<close> returns (0, 0, 1), and after \<open>applyGate(X, q)\<close> it returns
  (0, 0, -1); neither call fails.
\<close>

theorem blochVector_zero_state_X:
  assumes "n < 32" and "0 \<le> q" and "q < n"
  shows "\<exists>s s'. new_QuantumState n None = Inr s
           \<and> getBlochVector s q = Inr \<lparr>x = 0, y = 0, z = 1\<rparr>
           \<and> applyGate QuantumGates_X q s = Inr s'
           \<and> getBlochVector s' q = Inr \<lparr>x = 0, y = 0, z = - 1\<rparr>"
proof -
  let ?N = "nat n"
  let ?p = "nat (n - 1 - q)"
  let ?s = "\<lparr>amplitudes = basis ?N 0, numQubits = n\<rparr> :: 'a Complex QuantumState"
  let ?s' = "\<lparr>amplitudes = basis ?N (2 ^ ?p), numQubits = n\<rparr> :: 'a Complex QuantumState"
  have N: "?N < 32" and n: "n = int ?N" using assms by auto
  have p: "(2::nat) ^ ?p < 2 ^ ?N" using assms by (intro power_strict_increasing) auto
  have "new_QuantumState n None = Inr ?s"
    using assms by (simp add: new_QuantumState_def basis_def)
  moreover have "getBlochVector ?s q = Inr \<lparr>x = 0, y = 0, z = 1\<rparr>"
    using getBlochVector_basis [OF _ N n assms(2,3), of 0, where ?'a = 'a] by simp
  moreover have "applyGate QuantumGates_X q ?s = Inr ?s'"
    by (rule applyGate_X_zero [OF N n assms(2,3)])
  moreover have "getBlochVector ?s' q = Inr \<lparr>x = 0, y = 0, z = - 1\<rparr>"
    using getBlochVector_basis [OF p N n assms(2,3), where ?'a = 'a]
    by (simp add: bit_exp_iff)
  ultimately show ?thesis by blast
qed

theorem blochVector_zero_state_X_witness:
  "\<exists>s s'. new_QuantumState 3 None = Inr s
     \<and> getBlochVector s 1 = Inr \<lparr>x = 0, y = 0, z = (1::int)\<rparr>
     \<and> applyGate QuantumGates_X 1 s = Inr s'
     \<and> getBlochVector s' 1 = Inr \<lparr>x = 0, y = 0, z = - 1\<rparr>"
  using blochVector_zero_state_X [of 3 1, where ?'a = int] by simp

subsection \<open>getReducedDensityMatrix and qubit indices out of range\<close>

lemma those_defined: "None \<notin> set as \<Longrightarrow> \<exists>bs. those as = Some bs"
proof (induction as)
  case Nil
  show ?case by simp
next
  case (Cons a as)
  then obtain v bs where "a = Some v" "those as = Some bs" by (cases a) auto
  then show ?case by simp
qed

text \<open>
  An index at or above the number of qubits is refused, and an index below it, on a
  state all of whose slots hold amplitudes, is not.
\<close>

lemma getReducedDensityMatrix_refuses_large_index:
  "numQubits s \<le> q \<Longrightarrow> getReducedDensityMatrix s q = Inl (InvalidQubitIndex q)"
  by (simp add: getReducedDensityMatrix_def)

lemma getReducedDensityMatrix_accepts_smaller_index:
  assumes "None \<notin> set (amplitudes s)" and "q < numQubits s"
  shows "\<exists>m. getReducedDensityMatrix s q = Inr m"
proof -
  from those_defined [OF assms(1)] obtain bs where "those (amplitudes s) = Some bs" ..
  with assms(2) show ?thesis
    by (simp add: getReducedDensityMatrix_def getDensityMatrix_def Let_def)
qed

text \<open>
  C3 at a negative qubit index: on the fresh 2-qubit state, \<open>getReducedDensityMatrix(-1)\<close>
  does not fail; it returns a matrix.
\<close>

theorem getReducedDensityMatrix_negative_index:
  "getReducedDensityMatrix
     \<lparr>amplitudes = [Some (Complex 1 0), Some (Complex 0 0), Some (Complex 0 0), Some (Complex 0 0)],
      numQubits = 2\<rparr> (- 1)
   = Inr [[Complex (1::int) 0, Complex 0 0], [Complex 0 0, Complex 0 0]]"
  by (simp add: getReducedDensityMatrix_def getDensityMatrix_def reduced_body_def
      js_and_def js_shr_def js_not_def js_shl_def ToInt32_def shiftCount_def
      multiply_def conjugate_def add_def upt_rec Let_def)

subsection \<open>Which placements a run applies\<close>

lemma switch_is_apply_placement: "switch_symbol r state g = apply_placement r state g"
  by (simp add: switch_symbol_def apply_placement_def symbol_gate_def
      sym_PauliX_def sym_PauliY_def sym_PauliZ_def)

lemma stepped_loop_sorted:
  "sorted (map step gs) \<Longrightarrow>
     stepped_loop r c gs state = foldE (switch_symbol r) (filter (\<lambda>p. step p < c) gs) state"
proof (induction gs arbitrary: state)
  case Nil
  show ?case by simp
next
  case (Cons g gs)
  show ?case
  proof (cases "step g \<ge> c")
    case True
    with Cons.prems have "\<forall>p \<in> set (g # gs). \<not> step p < c" by auto
    then have "filter (\<lambda>p. step p < c) (g # gs) = []" by (simp only: filter_False)
    with True show ?thesis by simp
  next
    case False
    with Cons show ?thesis by (auto split: sum.splits)
  qed
qed

text \<open>
  C8: the state that \<open>updateSteppedState\<close> (cutoff \<open>c\<close>) and \<open>handleCircuitRun\<close> (no
  cutoff) store is the state of the specification's run: the placements with step below
  the cutoff, in ascending order of step, each applied through the gate of its symbol,
  and a placement whose symbol has no gate skipped while the run goes on. When a gate
  application raises, the stored state is left as it was.
\<close>

theorem run_applies_selected_placements:
  "quantumState (updateSteppedState r n c gates v)
     = (case run_spec r gates n (Some c) of Inl e \<Rightarrow> quantumState v | Inr s \<Rightarrow> s)
   \<and> quantumState (handleCircuitRun r n gates v)
     = (case run_spec r gates n None of Inl e \<Rightarrow> quantumState v | Inr s \<Rightarrow> s)"
proof -
  have q: "quantumState (set_views n s v) = s" for s :: "'a Complex QuantumState"
    by (simp add: set_views_def Let_def split: sum.splits)
  have sw: "switch_symbol r = apply_placement r"
    by (intro ext) (rule switch_is_apply_placement)
  have "stepped_loop r c (sort_key step gates) s
          = foldE (apply_placement r) (selected_placements (Some c) gates) s" for s
    using stepped_loop_sorted [of "sort_key step gates" r c s]
    by (simp add: selected_placements_def filter_sort sw)
  moreover have "selected_placements None gates = sort_key step gates"
    by (simp add: selected_placements_def)
  ultimately show ?thesis
    by (simp add: updateSteppedState_def handleCircuitRun_def run_spec_def q sw Let_def
        split: sum.splits)
qed

subsection \<open>applyGate returns on well-formed arguments\<close>





subsection \<open>The store: what the methods write\<close>

lemma length_h_set [simp]: "length (h_set h a i v) = length h"
  by (simp add: h_set_def)

lemma h_set_other [simp]: "b \<noteq> a \<Longrightarrow> h_set h a i v ! b = h ! b"
  by (simp add: h_set_def)






text \<open>
  On a store, the methods compute what the functions on values above compute.
\<close>

lemma cnot_body_h_pure:
  "newA < length h \<Longrightarrow>
     cnot_body_h n c t newA h state = h[newA := cnot_body n c t (h ! newA) state]"
  by (simp add: cnot_body_h_def cnot_body_def h_get_def h_set_def Let_def)

lemma cnot_loop_h_pure:
  assumes "thisA \<noteq> newA" and "newA < length h"
  shows "cnot_loop_h n c t thisA newA state h
           = Some (h[newA := foldl (cnot_body n c t) (h ! newA) [state..<length (h ! thisA)]])"
  using assms(2)
proof (induction "length (h ! thisA) - state" arbitrary: state h)
  case 0
  then show ?case by (subst cnot_loop_h.simps) simp
next
  case (Suc d)
  let ?h1 = "h[newA := cnot_body n c t (h ! newA) state]"
  have same: "?h1 ! thisA = h ! thisA" using assms(1) by simp
  from Suc.hyps(2) have lt: "state < length (h ! thisA)" by simp
  have d: "d = length (?h1 ! thisA) - Suc state" using Suc.hyps(2) same by simp
  have len: "newA < length ?h1" using Suc.prems by simp
  have "cnot_loop_h n c t thisA newA state h = cnot_loop_h n c t thisA newA (Suc state) ?h1"
    by (subst cnot_loop_h.simps) (simp add: lt cnot_body_h_pure Suc.prems)
  also have "\<dots> = Some (?h1[newA := foldl (cnot_body n c t) (?h1 ! newA)
                                      [Suc state..<length (?h1 ! thisA)]])"
    by (rule Suc.hyps(1) [OF d len])
  also have "\<dots> = Some (h[newA := foldl (cnot_body n c t) (h ! newA) [state..<length (h ! thisA)]])"
    using lt Suc.prems by (simp add: same upt_conv_Cons)
  finally show ?case .
qed

lemma applyCNOT_h_refines:
  assumes "obj_amplitudes this < length h"
  shows "\<exists>h' new s'. applyCNOT_h h this c t = Some (h', Inr new)
           \<and> applyCNOT \<lparr>amplitudes = h ! obj_amplitudes this, numQubits = obj_numQubits this\<rparr> c t
               = Inr s'
           \<and> h' ! obj_amplitudes new = amplitudes s' \<and> obj_numQubits new = numQubits s'"
proof -
  let ?A = "obj_amplitudes this"
  have "cnot_loop_h (obj_numQubits this) c t ?A (length h) 0 (h @ [h ! ?A])
          = Some ((h @ [h ! ?A])[length h := applyCNOT_array (obj_numQubits this) c t (h ! ?A)])"
    using assms
    by (subst cnot_loop_h_pure) (simp_all add: applyCNOT_array_def nth_append)
  then show ?thesis
    by (simp add: applyCNOT_h_def alloc_def new_QuantumState_h_def applyCNOT_def
        new_QuantumState_def nth_append)
qed







end
